theory Spec2Isabelle
  imports Complex_Main
begin

section \<open>Numbers and errors\<close>

text \<open>
  The page script computes with JavaScript numbers. They are modelled as real numbers.
  A JavaScript division whose divisor is zero yields an infinity or NaN, which is not a
  real number: the model records it as the error value \<open>DivisionByZero\<close> and does not
  follow the computation further. Reading a field of \<open>undefined\<close> (an index into an
  empty array) is the error \<open>TypeError\<close>.
\<close>

datatype error = DivisionByZero | TypeError

definition js_div :: "real \<Rightarrow> real \<Rightarrow> error + real" where
  "js_div a b = (if b = 0 then Inl DivisionByZero else Inr (a / b))"

section \<open>Scroll choreographer (the effect in App)\<close>

record pose =
  x :: real
  y :: real
  rotX :: real
  rotY :: real
  scale :: real

record waypoint = pose +
  scrollStart :: real

text \<open>The constants of the effect's closure: the viewport height read once at setup,
  and the release height computed from it.\<close>

definition STICKY_THRESHOLD :: real where
  "STICKY_THRESHOLD = 150"

record closure =
  winHeight :: real
  RELEASE_Y :: real

definition mountEffect :: "real \<Rightarrow> error + closure" where
  "mountEffect wh =
     (case js_div STICKY_THRESHOLD wh of
        Inl e \<Rightarrow> Inl e
      | Inr q \<Rightarrow> Inr \<lparr>winHeight = wh, RELEASE_Y = 56 - (q * 100)\<rparr>)"

definition waypoints :: "closure \<Rightarrow> waypoint list" where
  "waypoints c =
     [\<lparr>x = 30, y = RELEASE_Y c, rotX = 0, rotY = 0, scale = 1, scrollStart = 0\<rparr>,
      \<lparr>x = 85, y = 35, rotX = 45, rotY = 90, scale = 1, scrollStart = 0.08\<rparr>,
      \<lparr>x = 15, y = 55, rotX = 90, rotY = 180, scale = 1, scrollStart = 0.28\<rparr>,
      \<lparr>x = 80, y = 65, rotX = 135, rotY = 270, scale = 1, scrollStart = 0.48\<rparr>,
      \<lparr>x = 50, y = 50, rotX = 180, rotY = 360, scale = 1, scrollStart = 0.63\<rparr>,
      \<lparr>x = 10, y = 85, rotX = 270, rotY = 540, scale = 1, scrollStart = 0.78\<rparr>,
      \<lparr>x = 50, y = 92, rotX = 360, rotY = 720, scale = 0.3, scrollStart = 1\<rparr>]"

definition lerp :: "real \<Rightarrow> real \<Rightarrow> real \<Rightarrow> real" where
  "lerp start end' factor = start + (end' - start) * factor"

text \<open>The \<open>for\<close> loop of \<open>getTargetFromScroll\<close>: the first pair of neighbours whose
  \<open>scrollStart\<close> values bracket the argument, if there is one.\<close>

fun findSegment :: "waypoint list \<Rightarrow> real \<Rightarrow> (waypoint \<times> waypoint) option" where
  "findSegment (a # b # rest) scrollVH =
     (if scrollVH \<ge> scrollStart a \<and> scrollVH < scrollStart b then Some (a, b)
      else findSegment (b # rest) scrollVH)"
| "findSegment _ scrollVH = None"

definition ease :: "real \<Rightarrow> real" where
  "ease progress =
     (if progress < 0.5 then 2 * progress * progress
      else 1 - (-2 * progress + 2)\<^sup>2 / 2)"

definition getTargetFromScroll :: "waypoint list \<Rightarrow> real \<Rightarrow> error + pose" where
  "getTargetFromScroll wps scrollVH =
     (case wps of
        [] \<Rightarrow> Inl TypeError
      | w0 # _ \<Rightarrow>
          (let (from, to) = (case findSegment wps scrollVH of
                               Some ft \<Rightarrow> ft | None \<Rightarrow> (w0, w0))
           in if scrollVH \<ge> scrollStart (last wps) then Inr (pose.truncate (last wps))
              else let range = scrollStart to - scrollStart from
                   in if range \<le> 0 then Inr (pose.truncate from)
                      else (case js_div (scrollVH - scrollStart from) range of
                              Inl e \<Rightarrow> Inl e
                            | Inr progress \<Rightarrow>
                                (let t = ease progress
                                 in Inr \<lparr>x = x from + (x to - x from) * t,
                                         y = y from + (y to - y from) * t,
                                         rotX = rotX from + (rotX to - rotX from) * t,
                                         rotY = rotY from + (rotY to - rotY from) * t,
                                         scale = scale from + (scale to - scale from) * t\<rparr>))))"

text \<open>The mutable variables of the closure (\<open>current\<close>, \<open>wasInAnimationPhase\<close>) and
  the module-level \<open>modelRotationRef\<close> (its \<open>x\<close> and \<open>y\<close> as a pair). The style string
  written to the container is a function of \<open>current\<close> and is not modelled.\<close>

record state =
  current :: pose
  wasInAnimationPhase :: bool
  modelRotationRef :: "real \<times> real"

definition initialState :: state where
  "initialState =
     \<lparr>current = \<lparr>x = 30, y = 56, rotX = 0, rotY = 0, scale = 1\<rparr>,
      wasInAnimationPhase = False,
      modelRotationRef = (0, 0)\<rparr>"

definition scrollProgress :: "closure \<Rightarrow> real \<Rightarrow> real \<Rightarrow> error + real" where
  "scrollProgress c scrollY scrollHeight =
     (let maxScroll = scrollHeight - winHeight c;
          adjustedScroll = scrollY - STICKY_THRESHOLD;
          adjustedMax = maxScroll - STICKY_THRESHOLD
      in if adjustedMax > 0 then js_div adjustedScroll adjustedMax else Inr 0)"

text \<open>The argument handed to \<open>getTargetFromScroll\<close>:
  \<open>Math.max(0, Math.min(1, scrollProgress))\<close>.\<close>

definition clampedProgress :: "closure \<Rightarrow> real \<Rightarrow> real \<Rightarrow> error + real" where
  "clampedProgress c scrollY scrollHeight =
     (case scrollProgress c scrollY scrollHeight of
        Inl e \<Rightarrow> Inl e
      | Inr p \<Rightarrow> Inr (max 0 (min 1 p)))"

text \<open>One animation frame. \<open>scrollY\<close> is \<open>window.scrollY\<close> and \<open>scrollHeight\<close> is
  \<open>document.documentElement.scrollHeight\<close>, both read at the frame.\<close>

definition animate :: "closure \<Rightarrow> real \<Rightarrow> real \<Rightarrow> state \<Rightarrow> error + state" where
  "animate c scrollY scrollHeight s =
     (if scrollY < STICKY_THRESHOLD then
        (case js_div scrollY (winHeight c) of
           Inl e \<Rightarrow> Inl e
         | Inr q \<Rightarrow>
             (let targetY = 56 - (q * 100);
                  cur = current s;
                  s1 = (if wasInAnimationPhase s then
                          (let cur1 = \<lparr>x = lerp (x cur) 30 0.1,
                                       y = lerp (y cur) targetY 0.1,
                                       rotX = lerp (rotX cur) 0 0.08,
                                       rotY = lerp (rotY cur) 0 0.08,
                                       scale = lerp (scale cur) 1 0.1\<rparr>
                           in s\<lparr>current := cur1,
                                wasInAnimationPhase :=
                                  \<not> (\<bar>x cur1 - 30\<bar> < 0.05 \<and> \<bar>rotX cur1\<bar> < 0.1
                                     \<and> \<bar>rotY cur1\<bar> < 0.1)\<rparr>)
                        else s\<lparr>current := \<lparr>x = 30, y = targetY, rotX = 0, rotY = 0,
                                             scale = 1\<rparr>\<rparr>)
              in Inr (s1\<lparr>modelRotationRef := (rotX (current s1), rotY (current s1))\<rparr>)))
      else
        (case clampedProgress c scrollY scrollHeight of
           Inl e \<Rightarrow> Inl e
         | Inr p \<Rightarrow>
             (case getTargetFromScroll (waypoints c) p of
                Inl e \<Rightarrow> Inl e
              | Inr target \<Rightarrow>
                  (let cur = current s;
                       cur1 = \<lparr>x = lerp (x cur) (x target) 0.06,
                               y = lerp (y cur) (y target) 0.06,
                               rotX = lerp (rotX cur) (rotX target) 0.05,
                               rotY = lerp (rotY cur) (rotY target) 0.05,
                               scale = lerp (scale cur) (scale target) 0.06\<rparr>
                   in Inr (s\<lparr>current := cur1,
                             wasInAnimationPhase := True,
                             modelRotationRef := (rotX cur1, rotY cur1)\<rparr>)))))"

text \<open>A run of frames with the scroll position held: \<open>n\<close> calls of \<open>animate\<close>, stopping
  at the first error.\<close>

fun frames :: "nat \<Rightarrow> closure \<Rightarrow> real \<Rightarrow> real \<Rightarrow> state \<Rightarrow> error + state" where
  "frames 0 c scrollY scrollHeight s = Inr s"
| "frames (Suc n) c scrollY scrollHeight s =
     (case animate c scrollY scrollHeight s of
        Inl e \<Rightarrow> Inl e
      | Inr s1 \<Rightarrow> frames n c scrollY scrollHeight s1)"

section \<open>Card carousel (CardFan)\<close>

text \<open>
  The component's state: \<open>activeCard\<close> (React state) and the three refs. \<open>intervalRef\<close> is
  \<open>None\<close> for \<open>null\<close> and \<open>Some id\<close> for a timer id; \<open>timerSeq\<close> is the host's next timer
  id (timer ids are positive, hence truthy).
\<close>

record cardFan =
  activeCard :: int
  isHoveringRef :: bool
  scrollAccum :: real
  intervalRef :: "nat option"
  timerSeq :: nat

definition startAutoSwitch :: "cardFan \<Rightarrow> cardFan" where
  "startAutoSwitch s =
     (if intervalRef s \<noteq> None then s
      else s\<lparr>intervalRef := Some (timerSeq s), timerSeq := Suc (timerSeq s)\<rparr>)"

definition stopAutoSwitch :: "cardFan \<Rightarrow> cardFan" where
  "stopAutoSwitch s = (if intervalRef s \<noteq> None then s\<lparr>intervalRef := None\<rparr> else s)"

text \<open>The two state updaters passed to \<open>setActiveCard\<close>.\<close>

definition nextCard :: "int \<Rightarrow> int" where
  "nextCard prev = (if prev \<ge> 6 then 1 else prev + 1)"

definition prevCard :: "int \<Rightarrow> int" where
  "prevCard prev = (if prev \<le> 1 then 6 else prev - 1)"

text \<open>The interval's callback. The host runs it only while the interval is registered,
  which is exactly while \<open>intervalRef\<close> holds its id.\<close>

definition intervalFires :: "cardFan \<Rightarrow> cardFan" where
  "intervalFires s =
     (if intervalRef s \<noteq> None then s\<lparr>activeCard := nextCard (activeCard s)\<rparr> else s)"

definition handleWheel :: "real \<Rightarrow> real \<Rightarrow> cardFan \<Rightarrow> cardFan" where
  "handleWheel deltaY deltaX s =
     (if \<not> isHoveringRef s then s
      else (let acc = scrollAccum s + (if deltaY \<noteq> 0 then deltaY else deltaX)
            in if acc > 80 then s\<lparr>activeCard := nextCard (activeCard s), scrollAccum := 0\<rparr>
               else if acc < -80 then
                 s\<lparr>activeCard := prevCard (activeCard s), scrollAccum := 0\<rparr>
               else s\<lparr>scrollAccum := acc\<rparr>))"

definition handleMouseEnter :: "cardFan \<Rightarrow> cardFan" where
  "handleMouseEnter s = stopAutoSwitch (s\<lparr>isHoveringRef := True\<rparr>)"

definition handleMouseLeave :: "cardFan \<Rightarrow> cardFan" where
  "handleMouseLeave s = startAutoSwitch (s\<lparr>isHoveringRef := False, scrollAccum := 0\<rparr>)"

text \<open>The component after its first render and mount effect.\<close>

definition mounted :: cardFan where
  "mounted =
     startAutoSwitch \<lparr>activeCard = 1, isHoveringRef = False, scrollAccum = 0,
                      intervalRef = None, timerSeq = 1\<rparr>"

datatype event = IntervalFires | Wheel real real | MouseEnter | MouseLeave

fun handle :: "cardFan \<Rightarrow> event \<Rightarrow> cardFan" where
  "handle s IntervalFires = intervalFires s"
| "handle s (Wheel deltaY deltaX) = handleWheel deltaY deltaX s"
| "handle s MouseEnter = handleMouseEnter s"
| "handle s MouseLeave = handleMouseLeave s"

definition run :: "cardFan \<Rightarrow> event list \<Rightarrow> cardFan" where
  "run s evs = foldl handle s evs"

section \<open>Vocabulary of the properties\<close>

text \<open>The waypoint table is read in ascending order of \<open>scrollStart\<close>.\<close>

definition ascending :: "waypoint list \<Rightarrow> bool" where
  "ascending wps \<longleftrightarrow> sorted_wrt (<) (map scrollStart wps)"

text \<open>The pose that \<open>getTargetFromScroll\<close> builds from two waypoints and an eased
  fraction.\<close>

definition blendPose :: "waypoint \<Rightarrow> waypoint \<Rightarrow> real \<Rightarrow> pose" where
  "blendPose a b t =
     \<lparr>x = x a + (x b - x a) * t, y = y a + (y b - y a) * t,
      rotX = rotX a + (rotX b - rotX a) * t, rotY = rotY a + (rotY b - rotY a) * t,
      scale = scale a + (scale b - scale a) * t\<rparr>"

text \<open>\<open>u\<close> and then \<open>v\<close> lie between \<open>a\<close> and \<open>b\<close>, in the direction from \<open>a\<close> to \<open>b\<close>.\<close>

definition movesBetween :: "real \<Rightarrow> real \<Rightarrow> real \<Rightarrow> real \<Rightarrow> bool" where
  "movesBetween a b u v \<longleftrightarrow>
     (a \<le> b \<longrightarrow> a \<le> u \<and> u \<le> v \<and> v \<le> b) \<and> (b \<le> a \<longrightarrow> b \<le> v \<and> v \<le> u \<and> u \<le> a)"

text \<open>One frame of smoothing: positions and scale blended with factor \<open>fp\<close>, rotations
  with factor \<open>fr\<close>.\<close>

definition towards :: "real \<Rightarrow> real \<Rightarrow> pose \<Rightarrow> pose \<Rightarrow> pose" where
  "towards fp fr cur target =
     \<lparr>x = lerp (x cur) (x target) fp, y = lerp (y cur) (y target) fp,
      rotX = lerp (rotX cur) (rotX target) fr, rotY = lerp (rotY cur) (rotY target) fr,
      scale = lerp (scale cur) (scale target) fp\<rparr>"

text \<open>A field that equals its target after the frame did so before it.\<close>

definition arrivesOnlyIfThere :: "pose \<Rightarrow> pose \<Rightarrow> pose \<Rightarrow> bool" where
  "arrivesOnlyIfThere cur target cur1 \<longleftrightarrow>
     (x cur1 = x target \<longrightarrow> x cur = x target) \<and>
     (y cur1 = y target \<longrightarrow> y cur = y target) \<and>
     (rotX cur1 = rotX target \<longrightarrow> rotX cur = rotX target) \<and>
     (rotY cur1 = rotY target \<longrightarrow> rotY cur = rotY target) \<and>
     (scale cur1 = scale target \<longrightarrow> scale cur = scale target)"

text \<open>The pose after \<open>n\<close> frames of the animation regime with the target held: each
  offset from the target has shrunk by \<open>1 - 0.06\<close> (positions, scale) or \<open>1 - 0.05\<close>
  (rotations) per frame.\<close>

definition afterFrames :: "nat \<Rightarrow> pose \<Rightarrow> pose \<Rightarrow> pose" where
  "afterFrames n cur target =
     \<lparr>x = x target + (x cur - x target) * 0.94 ^ n,
      y = y target + (y cur - y target) * 0.94 ^ n,
      rotX = rotX target + (rotX cur - rotX target) * 0.95 ^ n,
      rotY = rotY target + (rotY cur - rotY target) * 0.95 ^ n,
      scale = scale target + (scale cur - scale target) * 0.94 ^ n\<rparr>"

definition withinOf :: "real \<Rightarrow> pose \<Rightarrow> pose \<Rightarrow> bool" where
  "withinOf eps cur target \<longleftrightarrow>
     \<bar>x cur - x target\<bar> \<le> eps \<and> \<bar>y cur - y target\<bar> \<le> eps \<and>
     \<bar>rotX cur - rotX target\<bar> \<le> eps \<and> \<bar>rotY cur - rotY target\<bar> \<le> eps \<and>
     \<bar>scale cur - scale target\<bar> \<le> eps"

definition noFarther :: "pose \<Rightarrow> pose \<Rightarrow> pose \<Rightarrow> bool" where
  "noFarther cur1 cur target \<longleftrightarrow>
     \<bar>x cur1 - x target\<bar> \<le> \<bar>x cur - x target\<bar> \<and>
     \<bar>y cur1 - y target\<bar> \<le> \<bar>y cur - y target\<bar> \<and>
     \<bar>rotX cur1 - rotX target\<bar> \<le> \<bar>rotX cur - rotX target\<bar> \<and>
     \<bar>rotY cur1 - rotY target\<bar> \<le> \<bar>rotY cur - rotY target\<bar> \<and>
     \<bar>scale cur1 - scale target\<bar> \<le> \<bar>scale cur - scale target\<bar>"

text \<open>The carousel is advancing by itself: nobody hovers and the interval is registered.\<close>

definition autoRunning :: "cardFan \<Rightarrow> bool" where
  "autoRunning s \<longleftrightarrow> \<not> isHoveringRef s \<and> intervalRef s \<noteq> None"

section \<open>Waypoint lookup\<close>

lemma waypoints_ascending: "ascending (waypoints c)"
  by (simp add: ascending_def waypoints_def)

lemma waypoints_length: "length (waypoints c) = 7"
  by (simp add: waypoints_def)

lemma waypoints_nonempty: "waypoints c \<noteq> []"
  by (simp add: waypoints_def)

lemma ascending_nth_less:
  "ascending wps \<Longrightarrow> i < j \<Longrightarrow> j < length wps \<Longrightarrow> scrollStart (wps ! i) < scrollStart (wps ! j)"
  unfolding ascending_def
  using sorted_wrt_nth_less [of "(<)" "map scrollStart wps" i j] by simp

lemma ascending_last:
  "ascending wps \<Longrightarrow> Suc i < length wps \<Longrightarrow> scrollStart (wps ! i) < scrollStart (last wps)"
proof -
  assume a: "ascending wps" and i: "Suc i < length wps"
  then have ne: "wps \<noteq> []" by auto
  have "scrollStart (wps ! i) < scrollStart (wps ! (length wps - 1))"
    using a i by (intro ascending_nth_less) auto
  then show ?thesis using ne by (simp add: last_conv_nth)
qed

lemma findSegment_nth:
  "ascending wps \<Longrightarrow> Suc i < length wps \<Longrightarrow> scrollStart (wps ! i) \<le> v \<Longrightarrow>
   v < scrollStart (wps ! Suc i) \<Longrightarrow> findSegment wps v = Some (wps ! i, wps ! Suc i)"
proof (induction wps v arbitrary: i rule: findSegment.induct)
  case (1 a b rest v)
  show ?case
  proof (cases i)
    case 0
    with "1.prems" show ?thesis by simp
  next
    case (Suc j)
    have asc: "ascending (b # rest)" using "1.prems"(1) by (simp add: ascending_def)
    have "scrollStart ((a # b # rest) ! 1) \<le> scrollStart ((a # b # rest) ! i)"
    proof (cases "i = 1")
      case True
      then show ?thesis by simp
    next
      case False
      with Suc have "1 < i" by simp
      then show ?thesis
        using ascending_nth_less [OF "1.prems"(1), of 1 i] "1.prems"(2) by simp
    qed
    then have nb: "\<not> (v \<ge> scrollStart a \<and> v < scrollStart b)"
      using "1.prems"(3) by simp
    have "findSegment (b # rest) v = Some ((b # rest) ! j, (b # rest) ! Suc j)"
      using "1.IH" [OF nb asc, of j] "1.prems" Suc by simp
    moreover have "findSegment (a # b # rest) v = findSegment (b # rest) v"
      using nb by auto
    ultimately show ?thesis using Suc by simp
  qed
qed simp_all

lemma truncate_eq:
  "pose.truncate (w::waypoint) = \<lparr>x = x w, y = y w, rotX = rotX w, rotY = rotY w, scale = scale w\<rparr>"
  by (simp add: pose.truncate_def)

lemma getTargetFromScroll_last:
  "wps \<noteq> [] \<Longrightarrow> scrollStart (last wps) \<le> v \<Longrightarrow>
   getTargetFromScroll wps v = Inr (pose.truncate (last wps))"
  by (cases wps) (simp_all add: getTargetFromScroll_def case_prod_beta)

lemma getTargetFromScroll_segment:
  assumes asc: "ascending wps" and i: "Suc i < length wps"
    and lo: "scrollStart (wps ! i) \<le> v" and hi: "v < scrollStart (wps ! Suc i)"
  shows "getTargetFromScroll wps v =
     Inr (blendPose (wps ! i) (wps ! Suc i)
       (ease ((v - scrollStart (wps ! i)) / (scrollStart (wps ! Suc i) - scrollStart (wps ! i)))))"
proof -
  obtain w0 ws where wps: "wps = w0 # ws" using i by (cases wps) auto
  have seg: "findSegment wps v = Some (wps ! i, wps ! Suc i)"
    using asc i lo hi by (rule findSegment_nth)
  have "scrollStart (wps ! Suc i) \<le> scrollStart (last wps)"
  proof (cases "Suc (Suc i) < length wps")
    case True
    then show ?thesis using ascending_last [OF asc True] by simp
  next
    case False
    with i have "Suc i = length wps - 1" by simp
    then show ?thesis using wps by (simp add: last_conv_nth)
  qed
  then have nl: "\<not> scrollStart (last wps) \<le> v" using hi by simp
  have rg: "\<not> scrollStart (wps ! Suc i) - scrollStart (wps ! i) \<le> 0" using lo hi by simp
  show ?thesis
    using seg nl rg unfolding getTargetFromScroll_def wps
    by (simp add: js_div_def blendPose_def Let_def)
qed

lemma getTargetFromScroll_total:
  "wps \<noteq> [] \<Longrightarrow> \<exists>T. getTargetFromScroll wps v = Inr T"
  by (cases wps)
     (auto simp: getTargetFromScroll_def js_div_def Let_def split: option.splits prod.splits)

section \<open>The easing curve\<close>

lemma ease_0: "ease 0 = 0"
  by (simp add: ease_def)

lemma ease_1: "ease 1 = 1"
  by (simp add: ease_def)

lemma ease_mono:
  assumes "0 \<le> p" "p \<le> q" "q \<le> 1"
  shows "ease p \<le> ease q"
proof -
  consider "q < 1/2" | "p < 1/2" "1/2 \<le> q" | "1/2 \<le> p" by linarith
  then show ?thesis
  proof cases
    case 1
    then have "p < 1/2" using assms by simp
    moreover have "p * p \<le> q * q" using assms by (intro mult_mono) auto
    ultimately show ?thesis using 1 by (simp add: ease_def)
  next
    case 2
    have "p * p \<le> (1/2) * (1/2)" using assms 2 by (intro mult_mono) auto
    moreover have "(2 - 2 * q) * (2 - 2 * q) \<le> 1 * 1" using assms 2 by (intro mult_mono) auto
    ultimately show ?thesis using 2 by (simp add: ease_def power2_eq_square)
  next
    case 3
    then have "1/2 \<le> q" using assms by simp
    moreover have "(2 - 2 * q) * (2 - 2 * q) \<le> (2 - 2 * p) * (2 - 2 * p)"
      using assms 3 by (intro mult_mono) auto
    ultimately show ?thesis using 3 by (simp add: ease_def power2_eq_square)
  qed
qed

lemma ease_range:
  assumes "0 \<le> p" "p \<le> 1"
  shows "0 \<le> ease p \<and> ease p \<le> 1"
  using ease_mono [of 0 p] ease_mono [of p 1] assms by (simp add: ease_0 ease_1)

lemma movesBetween_blend:
  assumes "0 \<le> s" "s \<le> t" "t \<le> 1"
  shows "movesBetween a b (a + (b - a) * s) (a + (b - a) * t)"
proof -
  have up: "a \<le> b \<Longrightarrow> 0 \<le> (b - a) * s \<and> (b - a) * s \<le> (b - a) * t \<and> (b - a) * t \<le> (b - a) * 1"
    using assms by (intro conjI mult_left_mono mult_nonneg_nonneg) auto
  have down: "b \<le> a \<Longrightarrow> 0 \<le> (a - b) * s \<and> (a - b) * s \<le> (a - b) * t \<and> (a - b) * t \<le> (a - b) * 1"
    using assms by (intro conjI mult_left_mono mult_nonneg_nonneg) auto
  show ?thesis
    unfolding movesBetween_def
  proof (intro conjI impI)
    assume "a \<le> b"
    from up [OF this] show "a \<le> a + (b - a) * s" "a + (b - a) * s \<le> a + (b - a) * t"
      "a + (b - a) * t \<le> b" by simp_all
  next
    assume "b \<le> a"
    from down [OF this] show "b \<le> a + (b - a) * t" "a + (b - a) * t \<le> a + (b - a) * s"
      "a + (b - a) * s \<le> a"
      by (simp_all add: algebra_simps)
  qed
qed

section \<open>Targets at and between waypoints\<close>

lemma getTargetFromScroll_at_waypoint:
  assumes asc: "ascending wps" and k: "k < length wps"
  shows "getTargetFromScroll wps (scrollStart (wps ! k)) = Inr (pose.truncate (wps ! k))"
proof (cases "Suc k < length wps")
  case True
  have "scrollStart (wps ! k) < scrollStart (wps ! Suc k)"
    using asc True by (intro ascending_nth_less) auto
  then have "getTargetFromScroll wps (scrollStart (wps ! k)) =
     Inr (blendPose (wps ! k) (wps ! Suc k) (ease 0))"
    using getTargetFromScroll_segment [OF asc True, of "scrollStart (wps ! k)"] by simp
  then show ?thesis by (simp add: ease_0 blendPose_def truncate_eq)
next
  case False
  with k have ne: "wps \<noteq> []" and "k = length wps - 1" by auto
  then have "wps \<noteq> []" and "wps ! k = last wps" by (simp_all add: last_conv_nth)
  then show ?thesis using getTargetFromScroll_last [of wps "scrollStart (wps ! k)"] by simp
qed

lemma getTargetFromScroll_between:
  assumes asc: "ascending wps" and i: "Suc i < length wps"
    and lo: "scrollStart (wps ! i) \<le> v" and hi: "v \<le> scrollStart (wps ! Suc i)"
  shows "getTargetFromScroll wps v =
     Inr (blendPose (wps ! i) (wps ! Suc i)
       (ease ((v - scrollStart (wps ! i)) / (scrollStart (wps ! Suc i) - scrollStart (wps ! i)))))"
proof (cases "v < scrollStart (wps ! Suc i)")
  case True
  with asc i lo show ?thesis by (rule getTargetFromScroll_segment)
next
  case False
  with hi have v: "v = scrollStart (wps ! Suc i)" by simp
  have "scrollStart (wps ! i) < scrollStart (wps ! Suc i)"
    using asc i by (intro ascending_nth_less) auto
  then have "(v - scrollStart (wps ! i)) / (scrollStart (wps ! Suc i) - scrollStart (wps ! i)) = 1"
    using v by simp
  then show ?thesis
    using getTargetFromScroll_at_waypoint [OF asc i] v
    by (simp add: ease_1 blendPose_def truncate_eq)
qed

section \<open>One animation frame\<close>

lemma scrollProgress_total:
  "\<exists>p. scrollProgress c scrollY scrollHeight = Inr p"
  by (simp add: scrollProgress_def js_div_def Let_def)

lemma clampedProgress_total:
  "\<exists>p. clampedProgress c scrollY scrollHeight = Inr p \<and> 0 \<le> p \<and> p \<le> 1"
proof -
  obtain q where "scrollProgress c scrollY scrollHeight = Inr q"
    using scrollProgress_total by blast
  then have "clampedProgress c scrollY scrollHeight = Inr (max 0 (min 1 q))"
    by (simp add: clampedProgress_def)
  moreover have "0 \<le> max 0 (min 1 q) \<and> max 0 (min 1 q) \<le> 1" by simp
  ultimately show ?thesis by blast
qed

lemma animate_sticky_return:
  assumes "scrollY < STICKY_THRESHOLD" and "winHeight c \<noteq> 0" and "wasInAnimationPhase s"
  shows "animate c scrollY scrollHeight s =
     Inr (s\<lparr>current := towards 0.1 0.08 (current s)
              \<lparr>x = 30, y = 56 - scrollY / winHeight c * 100, rotX = 0, rotY = 0, scale = 1\<rparr>,
            wasInAnimationPhase :=
              \<not> (\<bar>lerp (x (current s)) 30 0.1 - 30\<bar> < 0.05
                 \<and> \<bar>lerp (rotX (current s)) 0 0.08\<bar> < 0.1
                 \<and> \<bar>lerp (rotY (current s)) 0 0.08\<bar> < 0.1),
            modelRotationRef :=
              (lerp (rotX (current s)) 0 0.08, lerp (rotY (current s)) 0 0.08)\<rparr>)"
  using assms by (simp add: animate_def js_div_def Let_def towards_def)

lemma animate_sticky_rest:
  assumes "scrollY < STICKY_THRESHOLD" and "winHeight c \<noteq> 0" and "\<not> wasInAnimationPhase s"
  shows "animate c scrollY scrollHeight s =
     Inr (s\<lparr>current :=
              \<lparr>x = 30, y = 56 - scrollY / winHeight c * 100, rotX = 0, rotY = 0, scale = 1\<rparr>,
            modelRotationRef := (0, 0)\<rparr>)"
  using assms by (simp add: animate_def js_div_def Let_def)

lemma animate_sticky_Inr:
  "scrollY < STICKY_THRESHOLD \<Longrightarrow> animate c scrollY scrollHeight s = Inr s1 \<Longrightarrow> winHeight c \<noteq> 0"
  by (auto simp: animate_def js_div_def)

lemma animate_scrolling:
  assumes "\<not> scrollY < STICKY_THRESHOLD"
    and "clampedProgress c scrollY scrollHeight = Inr p"
    and "getTargetFromScroll (waypoints c) p = Inr T"
  shows "animate c scrollY scrollHeight s =
     Inr (s\<lparr>current := towards 0.06 0.05 (current s) T,
            wasInAnimationPhase := True,
            modelRotationRef :=
              (lerp (rotX (current s)) (rotX T) 0.05, lerp (rotY (current s)) (rotY T) 0.05)\<rparr>)"
  using assms by (simp add: animate_def Let_def towards_def)

lemma lerp_offset: "lerp a t f - t = (1 - f) * (a - t)"
  by (simp add: lerp_def algebra_simps)

lemma lerp_arrives: "f \<noteq> 1 \<Longrightarrow> lerp a t f = t \<longleftrightarrow> a = t"
proof -
  assume f: "f \<noteq> 1"
  have "lerp a t f = t \<longleftrightarrow> (1 - f) * (a - t) = 0"
    using lerp_offset [of a t f] by auto
  then show ?thesis using f by simp
qed

lemma lerp_decay: "lerp a t f = t + (a - t) * (1 - f)"
  by (simp add: lerp_def algebra_simps)

lemma lerp_noFarther:
  assumes "0 \<le> f" "f \<le> 1"
  shows "\<bar>lerp a t f - t\<bar> \<le> \<bar>a - t\<bar>"
proof -
  have "\<bar>lerp a t f - t\<bar> = (1 - f) * \<bar>a - t\<bar>"
    using assms by (simp add: lerp_offset abs_mult)
  also have "\<dots> \<le> 1 * \<bar>a - t\<bar>"
    using assms by (intro mult_right_mono) auto
  finally show ?thesis by simp
qed

lemma towards_arrives:
  "fp \<noteq> 1 \<Longrightarrow> fr \<noteq> 1 \<Longrightarrow> arrivesOnlyIfThere cur T (towards fp fr cur T)"
  by (simp add: arrivesOnlyIfThere_def towards_def lerp_arrives)

lemma towards_noFarther: "noFarther (towards 0.06 0.05 cur T) cur T"
  unfolding noFarther_def towards_def
  by (simp add: lerp_noFarther del: abs_le_iff)

section \<open>Frames with the scroll position held\<close>

lemma afterFrames_0: "afterFrames 0 cur T = cur"
  by (simp add: afterFrames_def)

lemma afterFrames_towards:
  "afterFrames n (towards 0.06 0.05 cur T) T = afterFrames (Suc n) cur T"
  by (simp add: afterFrames_def towards_def lerp_decay)

lemma towards_afterFrames: "towards 0.06 0.05 cur T = afterFrames (Suc 0) cur T"
  using afterFrames_towards [of 0 cur T] by (simp only: afterFrames_0)

lemma animate_scrolling_afterFrames:
  assumes ns: "\<not> scrollY < STICKY_THRESHOLD"
    and p: "clampedProgress c scrollY scrollHeight = Inr p"
    and T: "getTargetFromScroll (waypoints c) p = Inr T"
  shows "animate c scrollY scrollHeight s =
     Inr (s\<lparr>current := afterFrames (Suc 0) (current s) T,
            wasInAnimationPhase := True,
            modelRotationRef := (rotX (afterFrames (Suc 0) (current s) T),
                                 rotY (afterFrames (Suc 0) (current s) T))\<rparr>)"
proof -
  have r: "lerp (rotX (current s)) (rotX T) 0.05 = rotX (towards 0.06 0.05 (current s) T)"
    "lerp (rotY (current s)) (rotY T) 0.05 = rotY (towards 0.06 0.05 (current s) T)"
    by (simp_all add: towards_def)
  show ?thesis
    unfolding animate_scrolling [OF ns p T] r towards_afterFrames by (rule refl)
qed

lemma frames_scrolling:
  assumes ns: "\<not> scrollY < STICKY_THRESHOLD"
    and p: "clampedProgress c scrollY scrollHeight = Inr p"
    and T: "getTargetFromScroll (waypoints c) p = Inr T"
  shows "frames (Suc n) c scrollY scrollHeight s =
     Inr (s\<lparr>current := afterFrames (Suc n) (current s) T,
            wasInAnimationPhase := True,
            modelRotationRef := (rotX (afterFrames (Suc n) (current s) T),
                                 rotY (afterFrames (Suc n) (current s) T))\<rparr>)"
proof (induction n arbitrary: s)
  case 0
  show ?case
    by (simp add: animate_scrolling_afterFrames [OF ns p T])
next
  case (Suc n)
  have step: "frames (Suc (Suc n)) c scrollY scrollHeight s =
      frames (Suc n) c scrollY scrollHeight
        (s\<lparr>current := towards 0.06 0.05 (current s) T,
            wasInAnimationPhase := True,
            modelRotationRef :=
              (lerp (rotX (current s)) (rotX T) 0.05, lerp (rotY (current s)) (rotY T) 0.05)\<rparr>)"
    by (simp add: animate_scrolling [OF ns p T])
  show ?case
    unfolding step Suc.IH using afterFrames_towards [of "Suc n" "current s" T] by simp
qed

lemma frames_current:
  assumes ns: "\<not> scrollY < STICKY_THRESHOLD"
    and p: "clampedProgress c scrollY scrollHeight = Inr p"
    and T: "getTargetFromScroll (waypoints c) p = Inr T"
  shows "\<exists>sn. frames n c scrollY scrollHeight s = Inr sn
            \<and> current sn = afterFrames n (current s) T"
proof (cases n)
  case 0
  then show ?thesis by (simp add: afterFrames_0)
next
  case (Suc m)
  show ?thesis unfolding Suc frames_scrolling [OF ns p T] by simp
qed

lemma pow94: "(0.94::real) ^ 60 \<le> 0.05"
  by (simp add: power_divide)

lemma pow95: "(0.95::real) ^ 60 \<le> 0.05"
  by (simp add: power_divide)

lemma pow94_lower: "(0.01::real) < 20 * 0.94 ^ 60"
  by (simp add: power_divide)

lemma decay_bound:
  assumes d: "\<bar>a - t\<bar> \<le> 0.2" and k: "0 \<le> k" "k \<le> (0.05::real)"
  shows "\<bar>t + (a - t) * k - t\<bar> \<le> 0.01"
proof -
  have "\<bar>t + (a - t) * k - t\<bar> = \<bar>a - t\<bar> * k" using k by (simp add: abs_mult)
  also have "\<dots> \<le> 0.2 * 0.05" using d k by (intro mult_mono) auto
  finally show ?thesis by simp
qed

lemma afterFrames_within:
  assumes w: "withinOf 0.2 cur T" and n: "60 \<le> n"
  shows "withinOf 0.01 (afterFrames n cur T) T"
proof -
  have "(0.94::real) ^ n \<le> 0.94 ^ 60" by (rule power_decreasing [OF n]) simp_all
  then have a: "(0.94::real) ^ n \<le> 0.05" by (rule order_trans [OF _ pow94])
  have "(0.95::real) ^ n \<le> 0.95 ^ 60" by (rule power_decreasing [OF n]) simp_all
  then have b: "(0.95::real) ^ n \<le> 0.05" by (rule order_trans [OF _ pow95])
  have a0: "(0::real) \<le> 0.94 ^ n" and b0: "(0::real) \<le> 0.95 ^ n" by simp_all
  from w have w1: "\<bar>x cur - x T\<bar> \<le> 0.2" and w2: "\<bar>y cur - y T\<bar> \<le> 0.2"
    and w3: "\<bar>rotX cur - rotX T\<bar> \<le> 0.2" and w4: "\<bar>rotY cur - rotY T\<bar> \<le> 0.2"
    and w5: "\<bar>scale cur - scale T\<bar> \<le> 0.2"
    by (simp_all add: withinOf_def)
  show ?thesis
    unfolding withinOf_def afterFrames_def pose.simps
    by (intro conjI decay_bound w1 w2 w3 w4 w5 a b a0 b0)
qed

section \<open>A worked scroll position\<close>

lemma clampedProgress_example:
  "clampedProgress \<lparr>winHeight = 1000, RELEASE_Y = 41\<rparr> 4000 5000 = Inr 1"
  by (simp add: clampedProgress_def scrollProgress_def js_div_def STICKY_THRESHOLD_def Let_def)

lemma target_example:
  "getTargetFromScroll (waypoints \<lparr>winHeight = 1000, RELEASE_Y = 41\<rparr>) 1
     = Inr \<lparr>x = 50, y = 92, rotX = 360, rotY = 720, scale = 0.3\<rparr>"
  using getTargetFromScroll_last [of "waypoints \<lparr>winHeight = 1000, RELEASE_Y = 41\<rparr>" 1]
  by (simp add: waypoints_def truncate_eq)

lemma scrolling_example: "\<not> (4000::real) < STICKY_THRESHOLD"
  by (simp add: STICKY_THRESHOLD_def)

section \<open>Carousel steps\<close>

lemma nextCard_range: "k \<in> {1..6} \<Longrightarrow> nextCard k \<in> {1..6}"
  by (auto simp: nextCard_def)

lemma prevCard_range: "k \<in> {1..6} \<Longrightarrow> prevCard k \<in> {1..6}"
  by (auto simp: prevCard_def)

lemma handle_range: "activeCard s \<in> {1..6} \<Longrightarrow> activeCard (handle s e) \<in> {1..6}"
proof (cases e)
  case IntervalFires
  then show "activeCard s \<in> {1..6} \<Longrightarrow> ?thesis"
    using nextCard_range [of "activeCard s"] by (simp add: intervalFires_def)
next
  case (Wheel dy dx)
  then show "activeCard s \<in> {1..6} \<Longrightarrow> ?thesis"
    using nextCard_range [of "activeCard s"] prevCard_range [of "activeCard s"]
    by (simp add: handleWheel_def Let_def)
next
  case MouseEnter
  then show "activeCard s \<in> {1..6} \<Longrightarrow> ?thesis"
    by (simp add: handleMouseEnter_def stopAutoSwitch_def)
next
  case MouseLeave
  then show "activeCard s \<in> {1..6} \<Longrightarrow> ?thesis"
    by (simp add: handleMouseLeave_def startAutoSwitch_def)
qed

lemma run_range: "activeCard s \<in> {1..6} \<Longrightarrow> activeCard (run s evs) \<in> {1..6}"
  unfolding run_def
proof (induction evs arbitrary: s)
  case Nil
  then show ?case by simp
next
  case (Cons e evs)
  from Cons.prems have "activeCard (handle s e) \<in> {1..6}" by (rule handle_range)
  then show ?case using Cons.IH by simp
qed

lemma mounted_eq: "mounted = \<lparr>activeCard = 1, isHoveringRef = False, scrollAccum = 0,
                      intervalRef = Some 1, timerSeq = 2\<rparr>"
  by (simp add: mounted_def startAutoSwitch_def)

lemma handle_autoRunning:
  "autoRunning s \<Longrightarrow> e \<noteq> MouseEnter \<Longrightarrow>
   autoRunning (handle s e) \<and>
   activeCard (handle s e) = (if e = IntervalFires then nextCard (activeCard s) else activeCard s)"
  by (cases e)
     (simp_all add: autoRunning_def intervalFires_def handleWheel_def handleMouseLeave_def
        startAutoSwitch_def)

lemma run_autoRunning:
  "autoRunning s \<Longrightarrow> MouseEnter \<notin> set evs \<Longrightarrow>
   activeCard (run s evs) = (nextCard ^^ length (filter (\<lambda>e. e = IntervalFires) evs)) (activeCard s)"
  unfolding run_def
proof (induction evs arbitrary: s)
  case Nil
  then show ?case by simp
next
  case (Cons e evs)
  from Cons.prems have ne: "e \<noteq> MouseEnter" and rest: "MouseEnter \<notin> set evs" by auto
  note h = handle_autoRunning [OF Cons.prems(1) ne]
  from h have "autoRunning (handle s e)" by simp
  from Cons.IH [OF this rest] h show ?case
    by (simp add: funpow_swap1)
qed

lemma handle_paused:
  "intervalRef s = None \<Longrightarrow> e \<noteq> MouseLeave \<Longrightarrow> intervalRef (handle s e) = None"
  by (cases e)
     (simp_all add: intervalFires_def handleWheel_def Let_def handleMouseEnter_def stopAutoSwitch_def)

lemma run_paused:
  "intervalRef s = None \<Longrightarrow> MouseLeave \<notin> set evs \<Longrightarrow> intervalRef (run s evs) = None"
  unfolding run_def
proof (induction evs arbitrary: s)
  case Nil
  then show ?case by simp
next
  case (Cons e evs)
  from Cons.prems have ne: "e \<noteq> MouseLeave" and rest: "MouseLeave \<notin> set evs" by auto
  have "intervalRef (handle s e) = None" using Cons.prems(1) ne by (rule handle_paused)
  from Cons.IH [OF this rest] show ?case by simp
qed

lemma run_paused_fires:
  "intervalRef s = None \<Longrightarrow> MouseLeave \<notin> set evs \<Longrightarrow>
   run s evs = run s (filter (\<lambda>e. e \<noteq> IntervalFires) evs)"
  unfolding run_def
proof (induction evs arbitrary: s)
  case Nil
  then show ?case by simp
next
  case (Cons e evs)
  from Cons.prems have ne: "e \<noteq> MouseLeave" and rest: "MouseLeave \<notin> set evs" by auto
  have p: "intervalRef (handle s e) = None" using Cons.prems(1) ne by (rule handle_paused)
  show ?case
  proof (cases "e = IntervalFires")
    case True
    have same: "intervalFires s = s" using Cons.prems(1) by (simp add: intervalFires_def)
    from Cons.IH [OF Cons.prems(1) rest] show ?thesis using True by (simp add: same)
  next
    case False
    then show ?thesis using Cons.IH [OF p rest] by simp
  qed
qed

lemma nextCard4: "(nextCard ^^ 4) 1 = 5"
  by (simp add: eval_nat_numeral nextCard_def)

section \<open>The claims about the scroll choreographer\<close>

text \<open>
  Claim C1, in the form the code supports. On a frame of the animation regime, and on a frame
  of the sticky regime taken while \<open>wasInAnimationPhase\<close> is set, every field of
  \<open>current\<close> is blended toward its target by \<open>lerp\<close>: with factors 0.06 (x, y, scale) and
  0.05 (rotX, rotY) in the animation regime, with 0.1 and 0.08 on the way back to rest. The
  rotation factor is the smaller one in both cases, and a field equals its target after the
  frame only if it did before the frame.
\<close>

theorem pose_blends_toward_target:
  assumes run: "animate c scrollY scrollHeight s = Inr s1"
  shows "(scrollY < STICKY_THRESHOLD \<and> wasInAnimationPhase s \<longrightarrow>
       current s1 = towards 0.1 0.08 (current s)
         \<lparr>x = 30, y = 56 - scrollY / winHeight c * 100, rotX = 0, rotY = 0, scale = 1\<rparr>
       \<and> arrivesOnlyIfThere (current s)
         \<lparr>x = 30, y = 56 - scrollY / winHeight c * 100, rotX = 0, rotY = 0, scale = 1\<rparr>
         (current s1))
   \<and> (STICKY_THRESHOLD \<le> scrollY \<longrightarrow>
       (\<exists>p target. clampedProgress c scrollY scrollHeight = Inr p
          \<and> getTargetFromScroll (waypoints c) p = Inr target
          \<and> current s1 = towards 0.06 0.05 (current s) target
          \<and> arrivesOnlyIfThere (current s) target (current s1)))"
proof (intro conjI impI)
  let ?T = "\<lparr>x = 30, y = 56 - scrollY / winHeight c * 100, rotX = 0, rotY = 0, scale = 1\<rparr>"
  assume h: "scrollY < STICKY_THRESHOLD \<and> wasInAnimationPhase s"
  then have st: "scrollY < STICKY_THRESHOLD" and flag: "wasInAnimationPhase s" by simp_all
  have wh: "winHeight c \<noteq> 0" using st run by (rule animate_sticky_Inr)
  have "s1 = s\<lparr>current := towards 0.1 0.08 (current s) ?T,
              wasInAnimationPhase :=
                \<not> (\<bar>lerp (x (current s)) 30 0.1 - 30\<bar> < 0.05
                   \<and> \<bar>lerp (rotX (current s)) 0 0.08\<bar> < 0.1
                   \<and> \<bar>lerp (rotY (current s)) 0 0.08\<bar> < 0.1),
              modelRotationRef :=
                (lerp (rotX (current s)) 0 0.08, lerp (rotY (current s)) 0 0.08)\<rparr>"
    using run unfolding animate_sticky_return [OF st wh flag] by simp
  then show cur: "current s1 = towards 0.1 0.08 (current s) ?T" by simp
  show "arrivesOnlyIfThere (current s) ?T (current s1)"
    unfolding cur by (rule towards_arrives) simp_all
next
  assume "STICKY_THRESHOLD \<le> scrollY"
  then have ns: "\<not> scrollY < STICKY_THRESHOLD" by simp
  obtain p where p: "clampedProgress c scrollY scrollHeight = Inr p"
    using clampedProgress_total by blast
  obtain T where T: "getTargetFromScroll (waypoints c) p = Inr T"
    using getTargetFromScroll_total [OF waypoints_nonempty] by blast
  have "s1 = s\<lparr>current := towards 0.06 0.05 (current s) T,
            wasInAnimationPhase := True,
            modelRotationRef :=
              (lerp (rotX (current s)) (rotX T) 0.05, lerp (rotY (current s)) (rotY T) 0.05)\<rparr>"
    using run unfolding animate_scrolling [OF ns p T] by simp
  then have cur: "current s1 = towards 0.06 0.05 (current s) T" by simp
  have arr: "arrivesOnlyIfThere (current s) T (current s1)"
    unfolding cur by (rule towards_arrives) simp_all
  from p T cur arr show "\<exists>p target. clampedProgress c scrollY scrollHeight = Inr p
          \<and> getTargetFromScroll (waypoints c) p = Inr target
          \<and> current s1 = towards 0.06 0.05 (current s) target
          \<and> arrivesOnlyIfThere (current s) target (current s1)"
    by blast
qed

text \<open>A frame on the way back to rest and a frame at the end of the page, both with a viewport of 1000 px.\<close>

theorem pose_blends_toward_target_witness:
  "animate \<lparr>winHeight = 1000, RELEASE_Y = 41\<rparr> 0 5000
       \<lparr>current = \<lparr>x = 50, y = 50, rotX = 100, rotY = 200, scale = 0.5\<rparr>,
        wasInAnimationPhase = True, modelRotationRef = (100, 200)\<rparr>
     = Inr \<lparr>current = \<lparr>x = 48, y = 50.6, rotX = 92, rotY = 184, scale = 0.55\<rparr>,
            wasInAnimationPhase = True, modelRotationRef = (92, 184)\<rparr>
   \<and> arrivesOnlyIfThere \<lparr>x = 50, y = 50, rotX = 100, rotY = 200, scale = 0.5\<rparr>
         \<lparr>x = 30, y = 56, rotX = 0, rotY = 0, scale = 1\<rparr>
         \<lparr>x = 48, y = 50.6, rotX = 92, rotY = 184, scale = 0.55\<rparr>
   \<and> animate \<lparr>winHeight = 1000, RELEASE_Y = 41\<rparr> 4000 5000 initialState
     = Inr \<lparr>current = \<lparr>x = 31.2, y = 58.16, rotX = 18, rotY = 36, scale = 0.958\<rparr>,
            wasInAnimationPhase = True, modelRotationRef = (18, 36)\<rparr>
   \<and> (\<exists>p target.
         clampedProgress \<lparr>winHeight = 1000, RELEASE_Y = 41\<rparr> 4000 5000 = Inr p
       \<and> getTargetFromScroll (waypoints \<lparr>winHeight = 1000, RELEASE_Y = 41\<rparr>) p = Inr target
       \<and> arrivesOnlyIfThere (current initialState) target
            \<lparr>x = 31.2, y = 58.16, rotX = 18, rotY = 36, scale = 0.958\<rparr>)"
proof -
  let ?c = "\<lparr>winHeight = 1000, RELEASE_Y = 41\<rparr>"
  let ?sA = "\<lparr>current = \<lparr>x = 50, y = 50, rotX = 100, rotY = 200, scale = 0.5\<rparr>,
        wasInAnimationPhase = True, modelRotationRef = (100, 200)\<rparr>"
  let ?sA1 = "\<lparr>current = \<lparr>x = 48, y = 50.6, rotX = 92, rotY = 184, scale = 0.55\<rparr>,
            wasInAnimationPhase = True, modelRotationRef = (92, 184)\<rparr>"
  let ?sB1 = "\<lparr>current = \<lparr>x = 31.2, y = 58.16, rotX = 18, rotY = 36, scale = 0.958\<rparr>,
            wasInAnimationPhase = True, modelRotationRef = (18, 36)\<rparr>"
  have runA: "animate ?c 0 5000 ?sA = Inr ?sA1"
    by (simp add: animate_def js_div_def STICKY_THRESHOLD_def Let_def lerp_def)
  have hA: "(0::real) < STICKY_THRESHOLD \<and> wasInAnimationPhase ?sA"
    by (simp add: STICKY_THRESHOLD_def)
  have a: "arrivesOnlyIfThere \<lparr>x = 50, y = 50, rotX = 100, rotY = 200, scale = 0.5\<rparr>
         \<lparr>x = 30, y = 56, rotX = 0, rotY = 0, scale = 1\<rparr>
         \<lparr>x = 48, y = 50.6, rotX = 92, rotY = 184, scale = 0.55\<rparr>"
    using conjunct2 [OF mp [OF conjunct1 [OF pose_blends_toward_target [OF runA]] hA]]
    by simp
  have runB: "animate ?c 4000 5000 initialState = Inr ?sB1"
    unfolding animate_scrolling [OF scrolling_example clampedProgress_example target_example]
    by (simp add: initialState_def towards_def lerp_def)
  have hB: "STICKY_THRESHOLD \<le> (4000::real)" by (simp add: STICKY_THRESHOLD_def)
  have b: "\<exists>p target.
         clampedProgress ?c 4000 5000 = Inr p
       \<and> getTargetFromScroll (waypoints ?c) p = Inr target
       \<and> arrivesOnlyIfThere (current initialState) target
            \<lparr>x = 31.2, y = 58.16, rotX = 18, rotY = 36, scale = 0.958\<rparr>"
    using mp [OF conjunct2 [OF pose_blends_toward_target [OF runB]] hB]
    by auto
  show ?thesis by (rule conjI [OF runA conjI [OF a conjI [OF runB b]]])
qed

text \<open>
  Claim C1 as written also covers a sticky frame with \<open>wasInAnimationPhase\<close> clear. There
  the pose is assigned its target: from the initial state, with a viewport of 1000 px and a
  scroll offset of 100 px, \<open>y\<close> goes from 56 to its target \<open>56 - 100 / 1000 * 100\<close> in one
  frame.
\<close>

theorem sticky_snap_counterexample:
  "y (current initialState) = 56
   \<and> animate \<lparr>winHeight = 1000, RELEASE_Y = 41\<rparr> 100 5000 initialState
       = Inr \<lparr>current = \<lparr>x = 30, y = 56 - 100 / 1000 * 100, rotX = 0, rotY = 0, scale = 1\<rparr>,
              wasInAnimationPhase = False, modelRotationRef = (0, 0)\<rparr>
   \<and> (56 - 100 / 1000 * 100 :: real) \<noteq> 56"
  by (simp add: animate_def initialState_def STICKY_THRESHOLD_def js_div_def Let_def)

text \<open>
  Claim C2. For a scroll offset below \<open>STICKY_THRESHOLD\<close> (150) and a non-zero viewport
  height, the frame succeeds and the pose it aims at is x = 30, rotX = 0, rotY = 0,
  scale = 1 and y = 56 - scrollY / winHeight * 100: \<open>current\<close> becomes that pose, or, while
  \<open>wasInAnimationPhase\<close> is set, the blend of the old pose toward it.
\<close>

theorem sticky_target:
  assumes st: "scrollY < STICKY_THRESHOLD" and wh: "winHeight c \<noteq> 0"
  shows "STICKY_THRESHOLD = 150 \<and>
     (\<exists>s1. animate c scrollY scrollHeight s = Inr s1 \<and>
        current s1 =
          (if wasInAnimationPhase s
           then towards 0.1 0.08 (current s)
                  \<lparr>x = 30, y = 56 - scrollY / winHeight c * 100, rotX = 0, rotY = 0, scale = 1\<rparr>
           else \<lparr>x = 30, y = 56 - scrollY / winHeight c * 100, rotX = 0, rotY = 0,
                  scale = 1\<rparr>))"
proof (cases "wasInAnimationPhase s")
  case True
  show ?thesis
    unfolding animate_sticky_return [OF st wh True] using True
    by (simp add: STICKY_THRESHOLD_def)
next
  case False
  show ?thesis
    unfolding animate_sticky_rest [OF st wh False] using False
    by (simp add: STICKY_THRESHOLD_def)
qed

text \<open>The first frame at scroll offset 100 with a viewport of 1000 px.\<close>

theorem sticky_target_witness:
  "(100::real) < STICKY_THRESHOLD
   \<and> winHeight \<lparr>winHeight = 1000, RELEASE_Y = 41\<rparr> \<noteq> 0
   \<and> (\<exists>s1. animate \<lparr>winHeight = 1000, RELEASE_Y = 41\<rparr> 100 5000 initialState = Inr s1
          \<and> current s1 = \<lparr>x = 30, y = 46, rotX = 0, rotY = 0, scale = 1\<rparr>)"
proof -
  have h1: "(100::real) < STICKY_THRESHOLD" by (simp add: STICKY_THRESHOLD_def)
  have h2: "winHeight \<lparr>winHeight = 1000, RELEASE_Y = 41\<rparr> \<noteq> 0" by simp
  have "\<exists>s1. animate \<lparr>winHeight = 1000, RELEASE_Y = 41\<rparr> 100 5000 initialState = Inr s1
          \<and> current s1 = \<lparr>x = 30, y = 46, rotX = 0, rotY = 0, scale = 1\<rparr>"
    using conjunct2 [OF sticky_target [OF h1 h2, of 5000 initialState]]
    by (simp add: initialState_def)
  with h1 h2 show ?thesis by blast
qed

text \<open>
  Claim C3. For every waypoint of the table, \<open>getTargetFromScroll\<close> at that waypoint's
  \<open>scrollStart\<close> returns the waypoint's five field values exactly.
\<close>

theorem target_exact_at_waypoints:
  "\<forall>w \<in> set (waypoints c).
     getTargetFromScroll (waypoints c) (scrollStart w)
       = Inr \<lparr>x = x w, y = y w, rotX = rotX w, rotY = rotY w, scale = scale w\<rparr>"
proof
  fix w assume "w \<in> set (waypoints c)"
  then obtain k where k: "k < length (waypoints c)" and w: "w = waypoints c ! k"
    by (auto simp: in_set_conv_nth)
  show "getTargetFromScroll (waypoints c) (scrollStart w)
       = Inr \<lparr>x = x w, y = y w, rotX = rotX w, rotY = rotY w, scale = scale w\<rparr>"
    using getTargetFromScroll_at_waypoint [OF waypoints_ascending k] w
    by (simp add: truncate_eq)
qed

text \<open>The third waypoint, at progress 0.28.\<close>

theorem target_exact_at_waypoints_witness:
  "\<lparr>x = 15, y = 55, rotX = 90, rotY = 180, scale = 1, scrollStart = 0.28\<rparr>
      \<in> set (waypoints \<lparr>winHeight = 1000, RELEASE_Y = 41\<rparr>)
   \<and> getTargetFromScroll (waypoints \<lparr>winHeight = 1000, RELEASE_Y = 41\<rparr>) 0.28
       = Inr \<lparr>x = 15, y = 55, rotX = 90, rotY = 180, scale = 1\<rparr>"
proof -
  have m: "\<lparr>x = 15, y = 55, rotX = 90, rotY = 180, scale = 1, scrollStart = 0.28\<rparr>
      \<in> set (waypoints \<lparr>winHeight = 1000, RELEASE_Y = 41\<rparr>)"
    by (simp add: waypoints_def)
  from bspec [OF target_exact_at_waypoints m] m show ?thesis by simp
qed

text \<open>
  Claim C4. The last waypoint starts at 1, and for every progress at or beyond it
  \<open>getTargetFromScroll\<close> returns exactly the last waypoint's five field values.
\<close>

theorem target_at_or_beyond_last:
  "scrollStart (last (waypoints c)) = 1
   \<and> (1 \<le> v \<longrightarrow>
        getTargetFromScroll (waypoints c) v
          = Inr \<lparr>x = 50, y = 92, rotX = 360, rotY = 720, scale = 0.3\<rparr>)"
proof -
  have ne: "waypoints c \<noteq> []" by (simp add: waypoints_def)
  have l: "last (waypoints c)
     = \<lparr>x = 50, y = 92, rotX = 360, rotY = 720, scale = 0.3, scrollStart = 1\<rparr>"
    by (simp add: waypoints_def)
  show ?thesis
    using getTargetFromScroll_last [OF ne, of v] by (simp add: l truncate_eq)
qed

text \<open>Progress 1.\<close>

theorem target_at_or_beyond_last_witness:
  "(1::real) \<le> 1 \<and>
   getTargetFromScroll (waypoints \<lparr>winHeight = 1000, RELEASE_Y = 41\<rparr>) 1
          = Inr \<lparr>x = 50, y = 92, rotX = 360, rotY = 720, scale = 0.3\<rparr>"
  using target_at_or_beyond_last [of "\<lparr>winHeight = 1000, RELEASE_Y = 41\<rparr>" 1] by simp

text \<open>
  Claim C5. Between two neighbouring waypoints (both ends included), as progress grows each
  of the five fields of the target moves monotonically from the lower waypoint's value to
  the upper waypoint's value and never leaves the interval they span.
\<close>

theorem eased_target_monotone:
  assumes i: "Suc i < length (waypoints c)"
    and lo: "scrollStart (waypoints c ! i) \<le> v1" and le: "v1 \<le> v2"
    and hi: "v2 \<le> scrollStart (waypoints c ! Suc i)"
  shows "\<exists>p1 p2.
     getTargetFromScroll (waypoints c) v1 = Inr p1 \<and>
     getTargetFromScroll (waypoints c) v2 = Inr p2 \<and>
     movesBetween (x (waypoints c ! i)) (x (waypoints c ! Suc i)) (x p1) (x p2) \<and>
     movesBetween (y (waypoints c ! i)) (y (waypoints c ! Suc i)) (y p1) (y p2) \<and>
     movesBetween (rotX (waypoints c ! i)) (rotX (waypoints c ! Suc i)) (rotX p1) (rotX p2) \<and>
     movesBetween (rotY (waypoints c ! i)) (rotY (waypoints c ! Suc i)) (rotY p1) (rotY p2) \<and>
     movesBetween (scale (waypoints c ! i)) (scale (waypoints c ! Suc i)) (scale p1) (scale p2)"
proof -
  let ?a = "waypoints c ! i" and ?b = "waypoints c ! Suc i"
  let ?d = "scrollStart ?b - scrollStart ?a"
  let ?t1 = "ease ((v1 - scrollStart ?a) / ?d)" and ?t2 = "ease ((v2 - scrollStart ?a) / ?d)"
  have d: "0 < ?d"
    using ascending_nth_less [OF waypoints_ascending _ i, of i] by simp
  have g1: "getTargetFromScroll (waypoints c) v1 = Inr (blendPose ?a ?b ?t1)"
    using waypoints_ascending i lo by (rule getTargetFromScroll_between)
      (simp add: order_trans [OF le hi])
  have g2: "getTargetFromScroll (waypoints c) v2 = Inr (blendPose ?a ?b ?t2)"
    using waypoints_ascending i _ hi by (rule getTargetFromScroll_between)
      (simp add: order_trans [OF lo le])
  have q0: "0 \<le> (v1 - scrollStart ?a) / ?d" using d lo by simp
  have q1: "(v1 - scrollStart ?a) / ?d \<le> (v2 - scrollStart ?a) / ?d"
    using d le by (simp add: divide_right_mono)
  have q2: "(v2 - scrollStart ?a) / ?d \<le> 1" using d hi by simp
  have t0: "0 \<le> ?t1" using ease_mono [OF order_refl q0] q1 q2 by (simp add: ease_0)
  have t1: "?t1 \<le> ?t2" using q0 q1 q2 by (rule ease_mono)
  have t2: "?t2 \<le> 1" using ease_mono [OF _ q2 order_refl] q0 q1 by (simp add: ease_1)
  note mb = movesBetween_blend [OF t0 t1 t2]
  have m1: "movesBetween (x ?a) (x ?b) (x (blendPose ?a ?b ?t1)) (x (blendPose ?a ?b ?t2))"
    by (simp add: blendPose_def mb)
  have m2: "movesBetween (y ?a) (y ?b) (y (blendPose ?a ?b ?t1)) (y (blendPose ?a ?b ?t2))"
    by (simp add: blendPose_def mb)
  have m3: "movesBetween (rotX ?a) (rotX ?b) (rotX (blendPose ?a ?b ?t1))
              (rotX (blendPose ?a ?b ?t2))"
    by (simp add: blendPose_def mb)
  have m4: "movesBetween (rotY ?a) (rotY ?b) (rotY (blendPose ?a ?b ?t1))
              (rotY (blendPose ?a ?b ?t2))"
    by (simp add: blendPose_def mb)
  have m5: "movesBetween (scale ?a) (scale ?b) (scale (blendPose ?a ?b ?t1))
              (scale (blendPose ?a ?b ?t2))"
    by (simp add: blendPose_def mb)
  from g1 g2 m1 m2 m3 m4 m5 show ?thesis by blast
qed

text \<open>Progress 0.13 and 0.18 between the second and the third waypoint.\<close>

theorem eased_target_monotone_witness:
  "Suc 1 < length (waypoints \<lparr>winHeight = 1000, RELEASE_Y = 41\<rparr>)
   \<and> scrollStart (waypoints \<lparr>winHeight = 1000, RELEASE_Y = 41\<rparr> ! 1) \<le> 0.13
   \<and> (0.13::real) \<le> 0.18
   \<and> 0.18 \<le> scrollStart (waypoints \<lparr>winHeight = 1000, RELEASE_Y = 41\<rparr> ! Suc 1)
   \<and> (\<exists>p1 p2.
     getTargetFromScroll (waypoints \<lparr>winHeight = 1000, RELEASE_Y = 41\<rparr>) 0.13 = Inr p1 \<and>
     getTargetFromScroll (waypoints \<lparr>winHeight = 1000, RELEASE_Y = 41\<rparr>) 0.18 = Inr p2 \<and>
     movesBetween 85 15 (x p1) (x p2) \<and>
     movesBetween 35 55 (y p1) (y p2) \<and>
     movesBetween 45 90 (rotX p1) (rotX p2) \<and>
     movesBetween 90 180 (rotY p1) (rotY p2) \<and>
     movesBetween 1 1 (scale p1) (scale p2))"
proof -
  let ?c = "\<lparr>winHeight = 1000, RELEASE_Y = 41\<rparr>"
  have h1: "Suc 1 < length (waypoints ?c)" by (simp add: waypoints_def)
  have h2: "scrollStart (waypoints ?c ! 1) \<le> 0.13" by (simp add: waypoints_def)
  have h3: "(0.13::real) \<le> 0.18" by simp
  have h4: "0.18 \<le> scrollStart (waypoints ?c ! Suc 1)" by (simp add: waypoints_def)
  have w1: "waypoints ?c ! 1 = \<lparr>x = 85, y = 35, rotX = 45, rotY = 90, scale = 1, scrollStart = 0.08\<rparr>"
    by (simp add: waypoints_def)
  have w2: "waypoints ?c ! Suc 1 = \<lparr>x = 15, y = 55, rotX = 90, rotY = 180, scale = 1, scrollStart = 0.28\<rparr>"
    by (simp add: waypoints_def)
  from eased_target_monotone [OF h1 h2 h3 h4] h1 h2 h3 h4 show ?thesis
    unfolding w1 w2 by simp
qed

text \<open>
  Claim C6, in the form the code supports. With the scroll position held in the animation
  regime the target is one fixed pose, every number of frames succeeds, and after \<open>n\<close> frames
  each field's offset from the target is its initial offset times \<open>0.94 ^ n\<close> (x, y, scale)
  or \<open>0.95 ^ n\<close> (rotX, rotY); one more frame never takes a field farther from the target.
  After 60 or more frames every field is within 0.01 of the target provided every field
  started within 0.2 of it.
\<close>

theorem fixed_target_decay:
  assumes "STICKY_THRESHOLD \<le> scrollY"
  shows "\<exists>p target sn sn1.
     clampedProgress c scrollY scrollHeight = Inr p \<and>
     getTargetFromScroll (waypoints c) p = Inr target \<and>
     frames n c scrollY scrollHeight s = Inr sn \<and>
     animate c scrollY scrollHeight sn = Inr sn1 \<and>
     current sn = afterFrames n (current s) target \<and>
     noFarther (current sn1) (current sn) target \<and>
     (withinOf 0.2 (current s) target \<and> 60 \<le> n \<longrightarrow> withinOf 0.01 (current sn) target)"
proof -
  from assms have ns: "\<not> scrollY < STICKY_THRESHOLD" by simp
  obtain p where p: "clampedProgress c scrollY scrollHeight = Inr p"
    using clampedProgress_total by blast
  obtain T where T: "getTargetFromScroll (waypoints c) p = Inr T"
    using getTargetFromScroll_total [OF waypoints_nonempty] by blast
  obtain sn where sn: "frames n c scrollY scrollHeight s = Inr sn"
    and cur: "current sn = afterFrames n (current s) T"
    using frames_current [OF ns p T] by blast
  let ?sn1 = "sn\<lparr>current := towards 0.06 0.05 (current sn) T,
            wasInAnimationPhase := True,
            modelRotationRef :=
              (lerp (rotX (current sn)) (rotX T) 0.05, lerp (rotY (current sn)) (rotY T) 0.05)\<rparr>"
  have sn1: "animate c scrollY scrollHeight sn = Inr ?sn1"
    by (rule animate_scrolling [OF ns p T])
  have nf: "noFarther (current ?sn1) (current sn) T"
    using towards_noFarther [of "current sn" T] by simp
  have w: "withinOf 0.2 (current s) T \<and> 60 \<le> n \<longrightarrow> withinOf 0.01 (current sn) T"
    unfolding cur using afterFrames_within by blast
  from p T sn sn1 cur nf w show ?thesis by blast
qed

text \<open>Sixty frames at the end of the page from a pose within 0.2 of the last waypoint.\<close>

theorem fixed_target_decay_witness:
  "STICKY_THRESHOLD \<le> (4000::real)
   \<and> withinOf 0.2 \<lparr>x = 50.1, y = 91.9, rotX = 360.2, rotY = 719.8, scale = 0.4\<rparr>
        \<lparr>x = 50, y = 92, rotX = 360, rotY = 720, scale = 0.3\<rparr>
   \<and> (60::nat) \<le> 60
   \<and> (\<exists>sn. frames 60 \<lparr>winHeight = 1000, RELEASE_Y = 41\<rparr> 4000 5000
              (initialState\<lparr>current :=
                 \<lparr>x = 50.1, y = 91.9, rotX = 360.2, rotY = 719.8, scale = 0.4\<rparr>\<rparr>) = Inr sn
          \<and> withinOf 0.01 (current sn) \<lparr>x = 50, y = 92, rotX = 360, rotY = 720, scale = 0.3\<rparr>)"
proof -
  let ?c = "\<lparr>winHeight = 1000, RELEASE_Y = 41\<rparr>"
  let ?p0 = "\<lparr>x = 50.1, y = 91.9, rotX = 360.2, rotY = 719.8, scale = 0.4\<rparr>"
  let ?T = "\<lparr>x = 50, y = 92, rotX = 360, rotY = 720, scale = 0.3\<rparr>"
  have h1: "STICKY_THRESHOLD \<le> (4000::real)" by (simp add: STICKY_THRESHOLD_def)
  have h2: "withinOf 0.2 ?p0 ?T" by (simp add: withinOf_def)
  obtain p T sn where p: "clampedProgress ?c 4000 5000 = Inr p"
    and T: "getTargetFromScroll (waypoints ?c) p = Inr T"
    and sn: "frames 60 ?c 4000 5000 (initialState\<lparr>current := ?p0\<rparr>) = Inr sn"
    and w: "withinOf 0.2 (current (initialState\<lparr>current := ?p0\<rparr>)) T \<and> (60::nat) \<le> 60
              \<longrightarrow> withinOf 0.01 (current sn) T"
    using fixed_target_decay [OF h1, of ?c 5000 60 "initialState\<lparr>current := ?p0\<rparr>"] by blast
  from p have "p = 1" by (simp add: clampedProgress_example)
  with T have "T = ?T" by (simp add: target_example)
  with w h2 have "withinOf 0.01 (current sn) ?T" by simp
  with sn h1 h2 show ?thesis by blast
qed

text \<open>
  Claim C6 as written promises 0.01 after 60 frames from every initial pose. From the initial
  state, with a viewport of 1000 px, a document of 5000 px and the page scrolled to its end
  (offset 4000, progress 1), the target is the last waypoint and after 60 frames \<open>x\<close> is still
  \<open>20 * 0.94 ^ 60\<close> (about 0.49) away from it.
\<close>

theorem sixty_frames_counterexample:
  "frames 60 \<lparr>winHeight = 1000, RELEASE_Y = 41\<rparr> 4000 5000 initialState
     = Inr \<lparr>current = \<lparr>x = 50 - 20 * 0.94 ^ 60, y = 92 - 36 * 0.94 ^ 60,
                        rotX = 360 - 360 * 0.95 ^ 60, rotY = 720 - 720 * 0.95 ^ 60,
                        scale = 0.3 + 0.7 * 0.94 ^ 60\<rparr>,
            wasInAnimationPhase = True,
            modelRotationRef = (360 - 360 * 0.95 ^ 60, 720 - 720 * 0.95 ^ 60)\<rparr>
   \<and> getTargetFromScroll (waypoints \<lparr>winHeight = 1000, RELEASE_Y = 41\<rparr>) 1
       = Inr \<lparr>x = 50, y = 92, rotX = 360, rotY = 720, scale = 0.3\<rparr>
   \<and> \<not> \<bar>(50 - 20 * 0.94 ^ 60) - 50\<bar> \<le> (0.01::real)"
proof -
  have n: "(60::nat) = Suc 59" by simp
  have f: "frames 60 \<lparr>winHeight = 1000, RELEASE_Y = 41\<rparr> 4000 5000 initialState
     = Inr \<lparr>current = \<lparr>x = 50 - 20 * 0.94 ^ 60, y = 92 - 36 * 0.94 ^ 60,
                        rotX = 360 - 360 * 0.95 ^ 60, rotY = 720 - 720 * 0.95 ^ 60,
                        scale = 0.3 + 0.7 * 0.94 ^ 60\<rparr>,
            wasInAnimationPhase = True,
            modelRotationRef = (360 - 360 * 0.95 ^ 60, 720 - 720 * 0.95 ^ 60)\<rparr>"
    unfolding n frames_scrolling [OF scrolling_example clampedProgress_example target_example]
    by (simp add: initialState_def afterFrames_def del: power_Suc)
  have a: "\<not> \<bar>(50 - 20 * 0.94 ^ 60) - 50\<bar> \<le> (0.01::real)"
    using pow94_lower by simp
  show ?thesis by (rule conjI [OF f conjI [OF target_example a]])
qed

text \<open>
  Claim C7. For a non-zero viewport height the effect mounts, and on every frame: the
  progress handed to the waypoint lookup exists and lies in [0, 1]; when the scrollable range
  \<open>scrollHeight - winHeight - STICKY_THRESHOLD\<close> is zero or negative the progress is 0 and no
  division takes place; and the frame returns a state, that is, no division by zero occurs
  anywhere in it.
\<close>

theorem progress_guarded:
  assumes "wh \<noteq> 0"
  shows "\<exists>c. mountEffect wh = Inr c \<and> winHeight c = wh \<and>
     (\<exists>p. clampedProgress c scrollY scrollHeight = Inr p \<and> 0 \<le> p \<and> p \<le> 1 \<and>
        (scrollHeight - wh - STICKY_THRESHOLD \<le> 0 \<longrightarrow>
           scrollProgress c scrollY scrollHeight = Inr 0 \<and> p = 0)) \<and>
     (\<exists>s1. animate c scrollY scrollHeight s = Inr s1)"
proof -
  let ?c = "\<lparr>winHeight = wh, RELEASE_Y = 56 - (STICKY_THRESHOLD / wh * 100)\<rparr>"
  have m: "mountEffect wh = Inr ?c" using assms by (simp add: mountEffect_def js_div_def)
  have w: "winHeight ?c = wh" by simp
  obtain p where p: "clampedProgress ?c scrollY scrollHeight = Inr p" "0 \<le> p" "p \<le> 1"
    using clampedProgress_total by blast
  have z: "scrollHeight - wh - STICKY_THRESHOLD \<le> 0 \<longrightarrow>
           scrollProgress ?c scrollY scrollHeight = Inr 0 \<and> p = 0"
  proof
    assume "scrollHeight - wh - STICKY_THRESHOLD \<le> 0"
    then have sp: "scrollProgress ?c scrollY scrollHeight = Inr 0"
      by (simp add: scrollProgress_def Let_def)
    then have "clampedProgress ?c scrollY scrollHeight = Inr 0"
      by (simp add: clampedProgress_def)
    with p(1) have "p = 0" by simp
    with sp show "scrollProgress ?c scrollY scrollHeight = Inr 0 \<and> p = 0" by simp
  qed
  have a: "\<exists>s1. animate ?c scrollY scrollHeight s = Inr s1"
  proof (cases "scrollY < STICKY_THRESHOLD")
    case True
    show ?thesis
    proof (cases "wasInAnimationPhase s")
      case flag: True
      show ?thesis unfolding animate_sticky_return [OF True _ flag, of ?c, unfolded w, OF assms]
        by blast
    next
      case noflag: False
      show ?thesis unfolding animate_sticky_rest [OF True _ noflag, of ?c, unfolded w, OF assms]
        by blast
    qed
  next
    case False
    obtain T where T: "getTargetFromScroll (waypoints ?c) p = Inr T"
      using getTargetFromScroll_total [OF waypoints_nonempty] by blast
    show ?thesis unfolding animate_scrolling [OF False p(1) T] by blast
  qed
  have "\<exists>p. clampedProgress ?c scrollY scrollHeight = Inr p \<and> 0 \<le> p \<and> p \<le> 1 \<and>
        (scrollHeight - wh - STICKY_THRESHOLD \<le> 0 \<longrightarrow>
           scrollProgress ?c scrollY scrollHeight = Inr 0 \<and> p = 0)"
    using p z by blast
  with m w a show ?thesis by blast
qed

text \<open>A viewport of 1000 px in a document of 1100 px, at scroll offset 150: the scrollable range is negative.\<close>

theorem progress_guarded_witness:
  "(1000::real) \<noteq> 0
   \<and> (1100::real) - 1000 - STICKY_THRESHOLD \<le> 0
   \<and> (\<exists>c. mountEffect 1000 = Inr c \<and> winHeight c = 1000 \<and>
          clampedProgress c 150 1100 = Inr 0 \<and>
          (\<exists>s1. animate c 150 1100 initialState = Inr s1))"
proof -
  have h1: "(1000::real) \<noteq> 0" by simp
  have h2: "(1100::real) - 1000 - STICKY_THRESHOLD \<le> 0" by (simp add: STICKY_THRESHOLD_def)
  obtain c p where c: "mountEffect 1000 = Inr c" "winHeight c = 1000"
    and p: "clampedProgress c 150 1100 = Inr p"
    and z: "1100 - 1000 - STICKY_THRESHOLD \<le> 0 \<longrightarrow>
           scrollProgress c 150 1100 = Inr 0 \<and> p = 0"
    and a: "\<exists>s1. animate c 150 1100 initialState = Inr s1"
    using progress_guarded [OF h1, of 150 1100 initialState] by blast
  from z h2 have "p = 0" by blast
  with c p a h1 h2 show ?thesis by blast
qed

text \<open>
  Claim C8. After a frame at or above the threshold \<open>wasInAnimationPhase\<close> is set. After a
  frame below the threshold it is set exactly when it was set before and the pose produced by
  the frame is not yet within 0.05 of x = 30 and within 0.1 of rotX = 0 and rotY = 0. So the
  flag is cleared only in the sticky regime on such a frame, and nothing else changes it.
\<close>

theorem flag_transitions:
  assumes run: "animate c scrollY scrollHeight s = Inr s1"
  shows "(STICKY_THRESHOLD \<le> scrollY \<longrightarrow> wasInAnimationPhase s1) \<and>
     (scrollY < STICKY_THRESHOLD \<longrightarrow>
        wasInAnimationPhase s1 =
          (wasInAnimationPhase s \<and>
           \<not> (\<bar>x (current s1) - 30\<bar> < 0.05 \<and> \<bar>rotX (current s1)\<bar> < 0.1
              \<and> \<bar>rotY (current s1)\<bar> < 0.1)))"
proof (cases "scrollY < STICKY_THRESHOLD")
  case True
  have wh: "winHeight c \<noteq> 0" using True run by (rule animate_sticky_Inr)
  show ?thesis
  proof (cases "wasInAnimationPhase s")
    case flag: True
    have "s1 = s\<lparr>current := towards 0.1 0.08 (current s)
              \<lparr>x = 30, y = 56 - scrollY / winHeight c * 100, rotX = 0, rotY = 0, scale = 1\<rparr>,
            wasInAnimationPhase :=
              \<not> (\<bar>lerp (x (current s)) 30 0.1 - 30\<bar> < 0.05
                 \<and> \<bar>lerp (rotX (current s)) 0 0.08\<bar> < 0.1
                 \<and> \<bar>lerp (rotY (current s)) 0 0.08\<bar> < 0.1),
            modelRotationRef :=
              (lerp (rotX (current s)) 0 0.08, lerp (rotY (current s)) 0 0.08)\<rparr>"
      using run unfolding animate_sticky_return [OF True wh flag] by simp
    then show ?thesis using True flag by (simp add: towards_def)
  next
    case noflag: False
    have "s1 = s\<lparr>current :=
              \<lparr>x = 30, y = 56 - scrollY / winHeight c * 100, rotX = 0, rotY = 0, scale = 1\<rparr>,
            modelRotationRef := (0, 0)\<rparr>"
      using run unfolding animate_sticky_rest [OF True wh noflag] by simp
    then show ?thesis using True noflag by simp
  qed
next
  case False
  obtain p where p: "clampedProgress c scrollY scrollHeight = Inr p"
    using clampedProgress_total by blast
  obtain T where T: "getTargetFromScroll (waypoints c) p = Inr T"
    using getTargetFromScroll_total [OF waypoints_nonempty] by blast
  have "s1 = s\<lparr>current := towards 0.06 0.05 (current s) T,
            wasInAnimationPhase := True,
            modelRotationRef :=
              (lerp (rotX (current s)) (rotX T) 0.05, lerp (rotY (current s)) (rotY T) 0.05)\<rparr>"
    using run unfolding animate_scrolling [OF False p T] by simp
  then show ?thesis using False by simp
qed

text \<open>A sticky frame on which the pose comes close enough to rest: the flag is cleared.\<close>

theorem flag_transitions_witness:
  "animate \<lparr>winHeight = 1000, RELEASE_Y = 41\<rparr> 0 5000
       \<lparr>current = \<lparr>x = 30.05, y = 50, rotX = 0.1, rotY = 0.1, scale = 1\<rparr>,
        wasInAnimationPhase = True, modelRotationRef = (0.1, 0.1)\<rparr>
     = Inr \<lparr>current = \<lparr>x = 30.045, y = 50.6, rotX = 0.092, rotY = 0.092, scale = 1\<rparr>,
            wasInAnimationPhase = False, modelRotationRef = (0.092, 0.092)\<rparr>
   \<and> (0::real) < STICKY_THRESHOLD
   \<and> (False = (True \<and> \<not> (\<bar>30.045 - 30\<bar> < (0.05::real) \<and> \<bar>0.092\<bar> < (0.1::real)
                            \<and> \<bar>0.092\<bar> < (0.1::real))))"
proof -
  let ?c = "\<lparr>winHeight = 1000, RELEASE_Y = 41\<rparr>"
  let ?s = "\<lparr>current = \<lparr>x = 30.05, y = 50, rotX = 0.1, rotY = 0.1, scale = 1\<rparr>,
        wasInAnimationPhase = True, modelRotationRef = (0.1, 0.1)\<rparr>"
  let ?s1 = "\<lparr>current = \<lparr>x = 30.045, y = 50.6, rotX = 0.092, rotY = 0.092, scale = 1\<rparr>,
            wasInAnimationPhase = False, modelRotationRef = (0.092, 0.092)\<rparr>"
  have h: "(0::real) < STICKY_THRESHOLD" by (simp add: STICKY_THRESHOLD_def)
  have run: "animate ?c 0 5000 ?s = Inr ?s1"
    by (simp add: animate_def js_div_def STICKY_THRESHOLD_def Let_def lerp_def)
  have "wasInAnimationPhase ?s1 =
          (wasInAnimationPhase ?s \<and>
           \<not> (\<bar>x (current ?s1) - 30\<bar> < 0.05 \<and> \<bar>rotX (current ?s1)\<bar> < 0.1
              \<and> \<bar>rotY (current ?s1)\<bar> < 0.1))"
    by (rule mp [OF conjunct2 [OF flag_transitions [OF run]] h])
  then have f: "False = (True \<and> \<not> (\<bar>30.045 - 30\<bar> < (0.05::real) \<and> \<bar>0.092\<bar> < (0.1::real)
                            \<and> \<bar>0.092\<bar> < (0.1::real)))"
    by (simp only: state.simps pose.simps)
  show ?thesis by (rule conjI [OF run conjI [OF h f]])
qed

section \<open>The claims about the carousel\<close>

text \<open>
  Claim C9. From the mounted component, any run of events without a hover-enter that
  contains exactly four firings of the interval ends with card 5 active. A hover-enter clears
  the interval; until the next hover-leave it stays cleared and the firings in between change
  nothing; the hover-leave registers it again, and the next firing advances the card.
\<close>

theorem carousel_auto_advance_and_hover:
  "(MouseEnter \<notin> set evs \<and> length (filter (\<lambda>e. e = IntervalFires) evs) = 4
      \<longrightarrow> activeCard (run mounted evs) = 5)
   \<and> intervalRef (handleMouseEnter s) = None
   \<and> (MouseLeave \<notin> set evs' \<longrightarrow>
        intervalRef (run (handleMouseEnter s) evs') = None
        \<and> run (handleMouseEnter s) evs'
            = run (handleMouseEnter s) (filter (\<lambda>e. e \<noteq> IntervalFires) evs'))
   \<and> intervalRef (handleMouseLeave s) \<noteq> None
   \<and> activeCard (intervalFires (handleMouseLeave s)) = nextCard (activeCard s)"
proof -
  have a: "autoRunning mounted" by (simp add: autoRunning_def mounted_eq)
  have 1: "MouseEnter \<notin> set evs \<and> length (filter (\<lambda>e. e = IntervalFires) evs) = 4
      \<longrightarrow> activeCard (run mounted evs) = 5"
    using run_autoRunning [OF a, of evs] nextCard4 by (simp add: mounted_eq)
  have 2: "intervalRef (handleMouseEnter s) = None"
    by (simp add: handleMouseEnter_def stopAutoSwitch_def)
  have 3: "MouseLeave \<notin> set evs' \<longrightarrow>
        intervalRef (run (handleMouseEnter s) evs') = None
        \<and> run (handleMouseEnter s) evs'
            = run (handleMouseEnter s) (filter (\<lambda>e. e \<noteq> IntervalFires) evs')"
  proof (intro impI conjI)
    assume h: "MouseLeave \<notin> set evs'"
    show "intervalRef (run (handleMouseEnter s) evs') = None"
      using 2 h by (rule run_paused)
    show "run (handleMouseEnter s) evs'
            = run (handleMouseEnter s) (filter (\<lambda>e. e \<noteq> IntervalFires) evs')"
      using 2 h by (rule run_paused_fires)
  qed
  have 4: "intervalRef (handleMouseLeave s) \<noteq> None"
    by (simp add: handleMouseLeave_def startAutoSwitch_def)
  have 5: "activeCard (intervalFires (handleMouseLeave s)) = nextCard (activeCard s)"
    using 4 by (simp add: intervalFires_def) (simp add: handleMouseLeave_def startAutoSwitch_def)
  show ?thesis by (rule conjI [OF 1 conjI [OF 2 conjI [OF 3 conjI [OF 4 5]]]])
qed

text \<open>Four firings with a wheel event in between, and firings during a hover.\<close>

theorem carousel_auto_advance_and_hover_witness:
  "activeCard (run mounted [IntervalFires, IntervalFires, Wheel 100 0, IntervalFires, IntervalFires]) = 5
   \<and> run (handleMouseEnter mounted) [IntervalFires, Wheel 100 0, IntervalFires]
       = run (handleMouseEnter mounted) [Wheel 100 0]
   \<and> activeCard (run (handleMouseEnter mounted) [Wheel 100 0]) = 2"
proof -
  note t = carousel_auto_advance_and_hover
    [of "[IntervalFires, IntervalFires, Wheel 100 0, IntervalFires, IntervalFires]"
        mounted "[IntervalFires, Wheel 100 0, IntervalFires]"]
  have h1: "MouseEnter \<notin> set [IntervalFires, IntervalFires, Wheel 100 0, IntervalFires, IntervalFires]
    \<and> length (filter (\<lambda>e. e = IntervalFires)
         [IntervalFires, IntervalFires, Wheel 100 0, IntervalFires, IntervalFires]) = 4"
    by simp
  have h2: "MouseLeave \<notin> set [IntervalFires, Wheel 100 0, IntervalFires]" by simp
  have f: "filter (\<lambda>e. e \<noteq> IntervalFires) [IntervalFires, Wheel 100 0, IntervalFires]
           = [Wheel 100 0]" by simp
  have c1: "activeCard (run mounted
      [IntervalFires, IntervalFires, Wheel 100 0, IntervalFires, IntervalFires]) = 5"
    by (rule mp [OF conjunct1 [OF t] h1])
  have "run (handleMouseEnter mounted) [IntervalFires, Wheel 100 0, IntervalFires]
       = run (handleMouseEnter mounted)
           (filter (\<lambda>e. e \<noteq> IntervalFires) [IntervalFires, Wheel 100 0, IntervalFires])"
    by (rule conjunct2 [OF mp [OF conjunct1 [OF conjunct2 [OF conjunct2 [OF t]]] h2]])
  then have c2: "run (handleMouseEnter mounted) [IntervalFires, Wheel 100 0, IntervalFires]
       = run (handleMouseEnter mounted) [Wheel 100 0]"
    by (simp only: f)
  have c3: "activeCard (run (handleMouseEnter mounted) [Wheel 100 0]) = 2"
    by (simp add: run_def mounted_eq handleMouseEnter_def stopAutoSwitch_def handleWheel_def
        nextCard_def)
  show ?thesis by (rule conjI [OF c1 conjI [OF c2 c3]])
qed

text \<open>
  Claim C10. The active card of every state reached from the mounted component is one of
  1 .. 6; every event keeps it in that range; advancing from 6 gives 1 and stepping back from
  1 gives 6.
\<close>

theorem activeCard_in_range:
  "activeCard (run mounted evs) \<in> {1..6}
   \<and> (activeCard s \<in> {1..6} \<longrightarrow> activeCard (handle s e) \<in> {1..6})
   \<and> nextCard 6 = 1 \<and> prevCard 1 = 6"
proof -
  have "activeCard mounted \<in> {1..6}" by (simp add: mounted_eq)
  then have "activeCard (run mounted evs) \<in> {1..6}" by (rule run_range)
  moreover have "nextCard 6 = 1" "prevCard 1 = 6" by (simp_all add: nextCard_def prevCard_def)
  ultimately show ?thesis using handle_range by blast
qed

text \<open>Wheel events during a hover, and a firing at card 6.\<close>

theorem activeCard_in_range_witness:
  "activeCard (run mounted [MouseEnter, Wheel 100 0, Wheel (-200) 0, Wheel 0 (-90)]) \<in> {1..6}
   \<and> activeCard (mounted\<lparr>activeCard := 6\<rparr>) \<in> {1..6}
   \<and> activeCard (handle (mounted\<lparr>activeCard := 6\<rparr>) IntervalFires) = 1
   \<and> nextCard 6 = 1 \<and> prevCard 1 = 6"
  using activeCard_in_range [of "[MouseEnter, Wheel 100 0, Wheel (-200) 0, Wheel 0 (-90)]"
      "mounted\<lparr>activeCard := 6\<rparr>" IntervalFires]
  by (simp add: mounted_eq intervalFires_def nextCard_def)

end
